theory Spec2Isabelle
  imports Main "HOL-Library.Sublist"
begin

section \<open>Python values\<close>

text \<open>
  A Python \<open>str\<close> is a sequence of Unicode code points. The review record only compares
  and concatenates strings; the naming rule also classifies single characters
  (\<open>str.isupper\<close>, \<open>str.islower\<close>), which is a question about code points, so a string
  is modelled as the list of its code points. \<open>u\<close> reads an ASCII literal.
\<close>

type_synonym str = "nat list"

definition u :: "string \<Rightarrow> str" where
  "u cs = map of_char cs"

text \<open>The two line feeds of the f-string \<^verbatim>\<open>f"\n\n{body}"\<close>.\<close>

definition blank_line :: str where
  "blank_line = [10, 10]"

text \<open>The values a serialised comment holds (\<open>Dict[str, Any]\<close>).\<close>

datatype py_value = PyStr str | PyInt int

section \<open>record.py: the review record\<close>

text \<open>
  \<open>algorithms_keeper.constants.Label\<close> is imported by \<^verbatim>\<open>record.py\<close>; the three label
  names it reads are a parameter of the model.
\<close>

record Label =
  DESCRIPTIVE_NAME :: str
  REQUIRE_TEST :: str
  TYPE_HINT :: str

text \<open>The dict literal, in insertion order (the order \<open>items()\<close> iterates in).\<close>

definition RULE_TO_LABEL :: "Label \<Rightarrow> (str \<times> str) list" where
  "RULE_TO_LABEL L =
     [(u ''RequireDescriptiveNameRule'', DESCRIPTIVE_NAME L),
      (u ''RequireDoctestRule'', REQUIRE_TEST L),
      (u ''RequireTypeHintRule'', TYPE_HINT L)]"

text \<open>The fields of fixit's \<open>BaseLintRuleReport\<close> that \<open>add_comments\<close> reads.\<close>

record BaseLintRuleReport =
  code :: str
  message :: str
  line :: int

record ReviewComment =
  body :: str
  path :: str
  line :: int
  side :: str

text \<open>The dataclass constructor: \<open>side\<close> is not an argument and defaults to \<open>"RIGHT"\<close>.\<close>

definition new_ReviewComment :: "str \<Rightarrow> str \<Rightarrow> int \<Rightarrow> ReviewComment" where
  "new_ReviewComment b p l = \<lparr>body = b, path = p, line = l, side = u ''RIGHT''\<rparr>"

record PullRequestReviewRecord =
  labels_to_add :: "str list"
  labels_to_remove :: "str list"
  comments :: "ReviewComment list"
  violated_rules :: "str set"

text \<open>\<open>PullRequestReviewRecord()\<close>: every field from its default factory.\<close>

definition new_PullRequestReviewRecord :: PullRequestReviewRecord where
  "new_PullRequestReviewRecord =
     \<lparr>labels_to_add = [], labels_to_remove = [], comments = [], violated_rules = {}\<rparr>"

text \<open>
  The loop of \<open>_lineno_exist\<close> over \<open>self._comments\<close>: the first comment on the line of the
  file gets the body appended in place and the loop returns \<open>True\<close>.
\<close>

fun lineno_exist_loop ::
  "ReviewComment list \<Rightarrow> int \<Rightarrow> str \<Rightarrow> str \<Rightarrow> bool \<times> ReviewComment list" where
  "lineno_exist_loop [] lineno filepath bd = (False, [])"
| "lineno_exist_loop (comment # rest) lineno filepath bd =
     (if ReviewComment.line comment = lineno \<and> path comment = filepath
      then (True, comment\<lparr>body := body comment @ blank_line @ bd\<rparr> # rest)
      else (case lineno_exist_loop rest lineno filepath bd of
              (found, rest') \<Rightarrow> (found, comment # rest')))"

definition lineno_exist ::
  "PullRequestReviewRecord \<Rightarrow> int \<Rightarrow> str \<Rightarrow> str \<Rightarrow> bool \<times> PullRequestReviewRecord" where
  "lineno_exist self lineno filepath bd =
     (case lineno_exist_loop (comments self) lineno filepath bd of
        (found, cs) \<Rightarrow> (found, self\<lparr>comments := cs\<rparr>))"

fun add_comments ::
  "PullRequestReviewRecord \<Rightarrow> BaseLintRuleReport list \<Rightarrow> str \<Rightarrow> PullRequestReviewRecord" where
  "add_comments self [] filepath = self"
| "add_comments self (report # reports) filepath =
     (let ln = BaseLintRuleReport.line report;
          msg = message report;
          self1 = self\<lparr>violated_rules := insert (code report) (violated_rules self)\<rparr>
      in case lineno_exist self1 ln filepath msg of
           (found, self2) \<Rightarrow>
             if found then add_comments self2 reports filepath
             else add_comments
                    (self2\<lparr>comments := comments self2 @ [new_ReviewComment msg filepath ln]\<rparr>)
                    reports filepath)"

definition add_error ::
  "PullRequestReviewRecord \<Rightarrow> str \<Rightarrow> str \<Rightarrow> int option \<Rightarrow> PullRequestReviewRecord" where
  "add_error self msg filepath lineno =
     (let lineno' = (case lineno of None \<Rightarrow> 1 | Some n \<Rightarrow> n);
          bd = u ''An error occured while parsing the file: `'' @ filepath @ u ''`'' @ [10]
               @ u ''```python'' @ [10] @ msg @ [10] @ u ''```''
      in self\<lparr>comments := comments self @ [new_ReviewComment bd filepath lineno']\<rparr>)"

text \<open>The loop of \<open>fill_labels\<close> over the items of the rule table.\<close>

fun fill_labels_loop ::
  "(str \<times> str) list \<Rightarrow> PullRequestReviewRecord \<Rightarrow> str list \<Rightarrow> PullRequestReviewRecord" where
  "fill_labels_loop [] self current_labels = self"
| "fill_labels_loop ((rule, label) # items) self current_labels =
     (if rule \<in> violated_rules self
      then (if label \<notin> set current_labels \<and> label \<notin> set (labels_to_add self)
            then fill_labels_loop items
                   (self\<lparr>labels_to_add := labels_to_add self @ [label]\<rparr>) current_labels
            else fill_labels_loop items self current_labels)
      else if label \<in> set current_labels \<and> label \<notin> set (labels_to_remove self)
      then fill_labels_loop items
             (self\<lparr>labels_to_remove := labels_to_remove self @ [label]\<rparr>) current_labels
      else fill_labels_loop items self current_labels)"

definition fill_labels ::
  "Label \<Rightarrow> PullRequestReviewRecord \<Rightarrow> str list \<Rightarrow> PullRequestReviewRecord" where
  "fill_labels L self current_labels = fill_labels_loop (RULE_TO_LABEL L) self current_labels"

text \<open>\<open>dataclasses.asdict\<close>: one entry per field, in field order.\<close>

definition asdict :: "ReviewComment \<Rightarrow> (str \<times> py_value) list" where
  "asdict comment =
     [(u ''body'', PyStr (body comment)),
      (u ''path'', PyStr (path comment)),
      (u ''line'', PyInt (ReviewComment.line comment)),
      (u ''side'', PyStr (side comment))]"

definition collect_comments :: "PullRequestReviewRecord \<Rightarrow> (str \<times> py_value) list list" where
  "collect_comments self = map asdict (comments self)"

text \<open>
  The calls a driver makes on one record, one after the other: \<open>add_comments\<close> alone, or
  any of the three mutating methods.
\<close>

definition add_comments_calls ::
  "PullRequestReviewRecord \<Rightarrow> (BaseLintRuleReport list \<times> str) list \<Rightarrow> PullRequestReviewRecord" where
  "add_comments_calls self calls =
     foldl (\<lambda>s (reports, filepath). add_comments s reports filepath) self calls"

datatype call =
    AddComments "BaseLintRuleReport list" str
  | AddError str str "int option"
  | FillLabels "str list"

fun apply_call :: "Label \<Rightarrow> PullRequestReviewRecord \<Rightarrow> call \<Rightarrow> PullRequestReviewRecord" where
  "apply_call L self (AddComments reports filepath) = add_comments self reports filepath"
| "apply_call L self (AddError msg filepath lineno) = add_error self msg filepath lineno"
| "apply_call L self (FillLabels current_labels) = fill_labels L self current_labels"

definition apply_calls :: "Label \<Rightarrow> PullRequestReviewRecord \<Rightarrow> call list \<Rightarrow> PullRequestReviewRecord" where
  "apply_calls L self calls = foldl (apply_call L) self calls"

section \<open>naming\_convention.py: the naming rule\<close>

text \<open>
  \<open>str.isupper\<close> and \<open>str.islower\<close> of a one-character string look the character up in the
  Unicode character database. The database is a parameter of the model: two predicates
  on code points.
\<close>

record unicode_db =
  isupper :: "nat \<Rightarrow> bool"
  islower :: "nat \<Rightarrow> bool"

text \<open>
  The rows of the database for the code points below 128: \<open>A\<close> to \<open>Z\<close> are uppercase,
  \<open>a\<close> to \<open>z\<close> lowercase. It is used below only at ASCII characters and at the ideograph
  U+7C7B, which the database lists as a letter without case.
\<close>

definition ascii_db :: unicode_db where
  "ascii_db = \<lparr>isupper = (\<lambda>c. 65 \<le> c \<and> c \<le> 90), islower = (\<lambda>c. 97 \<le> c \<and> c \<le> 122)\<rparr>"

text \<open>The two message templates, with \<open>str.format\<close> applied.\<close>

definition INVALID_CAMEL_CASE_NAME :: "str \<Rightarrow> str" where
  "INVALID_CAMEL_CASE_NAME nodename =
     u ''Class names should follow the [`CamelCase`]''
     @ u ''(https://en.wikipedia.org/wiki/Camel_case) naming convention. ''
     @ u ''Please update the name of the class `'' @ nodename @ u ''` accordingly. ''"

definition INVALID_SNAKE_CASE_NAME :: "str \<Rightarrow> str \<Rightarrow> str" where
  "INVALID_SNAKE_CASE_NAME nodetype nodename =
     u ''Variable and function names should follow the [`snake_case`]''
     @ u ''(https://en.wikipedia.org/wiki/Snake_case) naming convention. ''
     @ u ''Please update the name of the '' @ nodetype @ u '' `'' @ nodename
     @ u ''` accordingly. ''"

text \<open>\<open>_any_uppercase_letter\<close>: the loop returns at the first uppercase letter.\<close>

fun any_uppercase_letter :: "unicode_db \<Rightarrow> str \<Rightarrow> bool" where
  "any_uppercase_letter db [] = False"
| "any_uppercase_letter db (letter # rest) =
     (if isupper db letter then True else any_uppercase_letter db rest)"

text \<open>
  The libcst nodes the rule visits, with the fields it reads. The name of a class, a
  function or a parameter is always a \<open>Name\<close> node and is given by its value; a target is
  any assignable expression.
\<close>

datatype expr =
    Name str
  | Tuple "expr list"
  | List "expr list"
  | Attribute expr str
  | Subscript expr

datatype node =
    ClassDef str
  | FunctionDef str
  | Param str
  | AnnAssign expr "expr option"
  | AssignTarget expr
  | For expr
  | NamedExpr expr expr

datatype error = IndexError | AttributeError

text \<open>
  \<^verbatim>\<open>m.Name(value=m.SaveMatchedNode(m.MatchIfTrue(_any_uppercase_letter), namekey))\<close>:
  the expression is a \<open>Name\<close> whose value satisfies the predicate, and the value is saved.
\<close>

fun match_Name :: "unicode_db \<Rightarrow> expr \<Rightarrow> str option" where
  "match_Name db (Name v) = (if any_uppercase_letter db v then Some v else None)"
| "match_Name db _ = None"

text \<open>
  The two \<open>m.extract\<close> calls. The result of a match is the dict with the one saved value,
  given here by that value; no match is \<open>None\<close>.
\<close>

fun extract_name :: "unicode_db \<Rightarrow> node \<Rightarrow> str option" where
  "extract_name db (FunctionDef n) = match_Name db (Name n)"
| "extract_name db (Param n) = match_Name db (Name n)"
| "extract_name db _ = None"

fun extract_target :: "unicode_db \<Rightarrow> node \<Rightarrow> str option" where
  "extract_target db (AnnAssign t v) = match_Name db t"
| "extract_target db (AssignTarget t) = match_Name db t"
| "extract_target db (For t) = match_Name db t"
| "extract_target db (NamedExpr t v) = match_Name db t"
| "extract_target db _ = None"

text \<open>
  \<open>_validate_snake_case_name\<close>: the second pattern is tried when the first gives \<open>None\<close>.
  The reports of one visit are the messages passed to \<open>self.report\<close>, in order.
\<close>

definition validate_snake_case_name :: "unicode_db \<Rightarrow> node \<Rightarrow> str \<Rightarrow> str list" where
  "validate_snake_case_name db nd nodetype =
     (let extracted = (case extract_name db nd of
                         Some d \<Rightarrow> Some d
                       | None \<Rightarrow> extract_target db nd)
      in case extracted of
           Some nodename \<Rightarrow> [INVALID_SNAKE_CASE_NAME nodetype nodename]
         | None \<Rightarrow> [])"

text \<open>\<open>node.name.value\<close> and \<open>node.value\<close>, for the node classes that have them.\<close>

fun name_value :: "node \<Rightarrow> error + str" where
  "name_value (ClassDef n) = Inr n"
| "name_value (FunctionDef n) = Inr n"
| "name_value (Param n) = Inr n"
| "name_value _ = Inl AttributeError"

fun node_value :: "node \<Rightarrow> error + expr option" where
  "node_value (AnnAssign t v) = Inr v"
| "node_value (NamedExpr t v) = Inr (Some v)"
| "node_value _ = Inl AttributeError"

definition visit_ClassDef :: "unicode_db \<Rightarrow> node \<Rightarrow> error + str list" where
  "visit_ClassDef db nd =
     (case name_value nd of
        Inl e \<Rightarrow> Inl e
      | Inr nodename \<Rightarrow>
          (case nodename of
             [] \<Rightarrow> Inl IndexError
           | first # _ \<Rightarrow>
               if islower db first \<or> of_char (CHR ''_'') \<in> set nodename
               then Inr [INVALID_CAMEL_CASE_NAME nodename]
               else Inr []))"

definition visit_AnnAssign :: "unicode_db \<Rightarrow> node \<Rightarrow> error + str list" where
  "visit_AnnAssign db nd =
     (case node_value nd of
        Inl e \<Rightarrow> Inl e
      | Inr None \<Rightarrow> Inr []
      | Inr (Some v) \<Rightarrow> Inr (validate_snake_case_name db nd (u ''variable'')))"

definition visit_AssignTarget :: "unicode_db \<Rightarrow> node \<Rightarrow> str list" where
  "visit_AssignTarget db nd = validate_snake_case_name db nd (u ''variable'')"

definition visit_For :: "unicode_db \<Rightarrow> node \<Rightarrow> str list" where
  "visit_For db nd = validate_snake_case_name db nd (u ''variable'')"

definition visit_FunctionDef :: "unicode_db \<Rightarrow> node \<Rightarrow> str list" where
  "visit_FunctionDef db nd = validate_snake_case_name db nd (u ''function'')"

definition visit_NamedExpr :: "unicode_db \<Rightarrow> node \<Rightarrow> str list" where
  "visit_NamedExpr db nd = validate_snake_case_name db nd (u ''variable'')"

definition visit_Param :: "unicode_db \<Rightarrow> node \<Rightarrow> str list" where
  "visit_Param db nd = validate_snake_case_name db nd (u ''parameter'')"

section \<open>Specification-level notions\<close>

text \<open>
  What the properties speak of and the code does not name: a comment's location, the messages
  delivered to a location by a sequence of \<open>add_comments\<close> calls, their join
  \<^verbatim>\<open>"\n\n".join(messages)\<close>, and the order in which locations are first seen.
\<close>

definition location :: "ReviewComment \<Rightarrow> str \<times> int" where
  "location c = (path c, ReviewComment.line c)"

definition located :: "str \<Rightarrow> int \<Rightarrow> ReviewComment \<Rightarrow> bool" where
  "located p l c \<longleftrightarrow> path c = p \<and> ReviewComment.line c = l"

definition spec_delivered ::
  "(BaseLintRuleReport list \<times> str) list \<Rightarrow> str \<Rightarrow> int \<Rightarrow> str list" where
  "spec_delivered calls p l =
     concat (map (\<lambda>(reports, filepath).
       if filepath = p
       then map message (filter (\<lambda>r. BaseLintRuleReport.line r = l) reports)
       else []) calls)"

fun spec_join_blank :: "str list \<Rightarrow> str" where
  "spec_join_blank [] = []"
| "spec_join_blank [m] = m"
| "spec_join_blank (m # m' # ms) = m @ blank_line @ spec_join_blank (m' # ms)"

text \<open>
  The order of first-seen locations: a location joins the end of the order when a report
  or an error names it for the first time, and not again.
\<close>

definition spec_see :: "(str \<times> int) list \<Rightarrow> str \<times> int \<Rightarrow> (str \<times> int) list" where
  "spec_see locs loc = (if loc \<in> set locs then locs else locs @ [loc])"

fun spec_locations_call :: "(str \<times> int) list \<Rightarrow> call \<Rightarrow> (str \<times> int) list" where
  "spec_locations_call locs (AddComments reports filepath) =
     foldl spec_see locs (map (\<lambda>r. (filepath, BaseLintRuleReport.line r)) reports)"
| "spec_locations_call locs (AddError msg filepath lineno) =
     spec_see locs (filepath, case lineno of None \<Rightarrow> 1 | Some n \<Rightarrow> n)"
| "spec_locations_call locs (FillLabels current_labels) = locs"

definition spec_locations :: "call list \<Rightarrow> (str \<times> int) list" where
  "spec_locations calls = foldl spec_locations_call [] calls"

fun is_AddError :: "call \<Rightarrow> bool" where
  "is_AddError (AddError msg filepath lineno) = True"
| "is_AddError _ = False"

text \<open>The class name starts with an uppercase letter.\<close>

definition spec_starts_uppercase :: "unicode_db \<Rightarrow> str \<Rightarrow> bool" where
  "spec_starts_uppercase db nodename =
     (case nodename of [] \<Rightarrow> False | first # _ \<Rightarrow> isupper db first)"

text \<open>Repeated \<open>fill_labels\<close> calls on one record, each with its own current labels.\<close>

definition fill_labels_calls ::
  "Label \<Rightarrow> PullRequestReviewRecord \<Rightarrow> str list list \<Rightarrow> PullRequestReviewRecord" where
  "fill_labels_calls L self calls = foldl (fill_labels L) self calls"

text \<open>Three distinct label names, for the examples.\<close>

definition example_labels :: Label where
  "example_labels =
     \<lparr>DESCRIPTIVE_NAME = u ''names'', REQUIRE_TEST = u ''tests'', TYPE_HINT = u ''hints''\<rparr>"

subsection \<open>Proof devices\<close>

text \<open>One iteration of the loop of \<open>add_comments\<close>.\<close>

definition add_comments_step ::
  "PullRequestReviewRecord \<Rightarrow> BaseLintRuleReport \<Rightarrow> str \<Rightarrow> PullRequestReviewRecord" where
  "add_comments_step self report filepath =
     (case lineno_exist_loop (comments self) (BaseLintRuleReport.line report) filepath
             (message report) of
        (found, cs) \<Rightarrow>
          self\<lparr>violated_rules := insert (code report) (violated_rules self),
               comments := (if found then cs
                            else cs @ [new_ReviewComment (message report) filepath
                                         (BaseLintRuleReport.line report)])\<rparr>)"

text \<open>What the comments at one location become when messages arrive there.\<close>

fun absorb :: "ReviewComment list \<Rightarrow> str \<Rightarrow> int \<Rightarrow> str list \<Rightarrow> ReviewComment list" where
  "absorb cs p l [] = cs"
| "absorb [] p l (m # ms) = absorb [new_ReviewComment m p l] p l ms"
| "absorb (c # cs) p l (m # ms) = absorb (c\<lparr>body := body c @ blank_line @ m\<rparr> # cs) p l ms"

section \<open>The loop of \<open>_lineno_exist\<close>\<close>

lemma loop_not_found:
  "\<not> fst (lineno_exist_loop cs l fp bd) \<Longrightarrow> snd (lineno_exist_loop cs l fp bd) = cs"
  by (induction cs) (auto split: prod.splits)

lemma loop_found_iff:
  "fst (lineno_exist_loop cs l fp bd) \<longleftrightarrow> (\<exists>c \<in> set cs. located fp l c)"
  by (induction cs) (auto simp: located_def split: prod.splits)

lemma loop_filter_other:
  "(fp, l) \<noteq> (p, k) \<Longrightarrow>
   filter (located p k) (snd (lineno_exist_loop cs l fp bd)) = filter (located p k) cs"
  by (induction cs) (auto simp: located_def split: prod.splits)

lemma loop_filter_same:
  "filter (located fp l) (snd (lineno_exist_loop cs l fp bd)) =
   (case filter (located fp l) cs of [] \<Rightarrow> []
    | c # rest \<Rightarrow> c\<lparr>body := body c @ blank_line @ bd\<rparr> # rest)"
  by (induction cs) (auto simp: located_def split: prod.splits)

lemma loop_locations:
  "map location (snd (lineno_exist_loop cs l fp bd)) = map location cs"
  by (induction cs) (auto simp: location_def split: prod.splits)

lemma loop_sides:
  "map side (snd (lineno_exist_loop cs l fp bd)) = map side cs"
  by (induction cs) (auto split: prod.splits)

section \<open>\<open>add_comments\<close>, one report at a time\<close>

lemma add_comments_Cons:
  "add_comments self (report # reports) filepath =
   add_comments (add_comments_step self report filepath) reports filepath"
  by (simp add: add_comments_step_def lineno_exist_def Let_def split: prod.splits)

declare add_comments.simps(2) [simp del]

lemma step_violated:
  "violated_rules (add_comments_step self r fp) = insert (code r) (violated_rules self)"
  by (simp add: add_comments_step_def split: prod.splits)

lemma step_comments:
  "comments (add_comments_step self r fp) =
   (if fst (lineno_exist_loop (comments self) (BaseLintRuleReport.line r) fp (message r))
    then snd (lineno_exist_loop (comments self) (BaseLintRuleReport.line r) fp (message r))
    else comments self @ [new_ReviewComment (message r) fp (BaseLintRuleReport.line r)])"
  by (simp add: add_comments_step_def case_prod_beta loop_not_found)

lemma add_comments_violated:
  "violated_rules (add_comments self reports fp) = violated_rules self \<union> code ` set reports"
  by (induction reports arbitrary: self)
     (simp_all only: add_comments.simps(1) add_comments_Cons step_violated, auto)

lemma calls_violated:
  "violated_rules (add_comments_calls self calls) =
   violated_rules self \<union> set (concat (map (\<lambda>(reports, filepath). map code reports) calls))"
proof (induction calls arbitrary: self)
  case Nil
  show ?case by (simp add: add_comments_calls_def)
next
  case (Cons cll calls)
  obtain reports fp where cll: "cll = (reports, fp)" by (cases cll)
  have "add_comments_calls self (cll # calls) =
        add_comments_calls (add_comments self reports fp) calls"
    by (simp add: add_comments_calls_def cll)
  then show ?case
    using Cons.IH[of "add_comments self reports fp"]
    by (auto simp: add_comments_violated cll)
qed

subsection \<open>The comments at one location\<close>

lemma absorb_append: "absorb (absorb cs p l ms) p l ms' = absorb cs p l (ms @ ms')"
  by (induction cs p l ms rule: absorb.induct) simp_all

lemma step_filter:
  "filter (located p l) (comments (add_comments_step self r fp)) =
   absorb (filter (located p l) (comments self)) p l
     (if fp = p \<and> BaseLintRuleReport.line r = l then [message r] else [])"
proof (cases "fp = p \<and> BaseLintRuleReport.line r = l")
  case True
  show ?thesis
  proof (cases "fst (lineno_exist_loop (comments self) l p (message r))")
    case found: True
    then have "filter (located p l) (comments self) \<noteq> []"
      using True by (simp add: loop_found_iff filter_empty_conv)
    then obtain c rest where "filter (located p l) (comments self) = c # rest"
      by (cases "filter (located p l) (comments self)") simp_all
    with True found show ?thesis
      using loop_filter_same[of p l "comments self" "message r"]
      by (simp add: step_comments)
  next
    case nf: False
    then have "filter (located p l) (comments self) = []"
      by (auto simp: loop_found_iff filter_empty_conv)
    with True nf show ?thesis
      by (simp add: step_comments located_def new_ReviewComment_def)
  qed
next
  case False
  then have ne: "(fp, BaseLintRuleReport.line r) \<noteq> (p, l)" by auto
  have "\<not> located p l (new_ReviewComment (message r) fp (BaseLintRuleReport.line r))"
    using False by (auto simp: located_def new_ReviewComment_def)
  then have "filter (located p l) (comments (add_comments_step self r fp)) =
             filter (located p l) (comments self)"
    using loop_filter_other[OF ne, of "comments self" "message r"]
    by (simp add: step_comments)
  moreover have "(if fp = p \<and> BaseLintRuleReport.line r = l then [message r] else []) = []"
    using False by simp
  ultimately show ?thesis by (simp only: absorb.simps)
qed

lemma add_comments_filter:
  "filter (located p l) (comments (add_comments self reports fp)) =
   absorb (filter (located p l) (comments self)) p l
     (if fp = p then map message (filter (\<lambda>r. BaseLintRuleReport.line r = l) reports) else [])"
proof (induction reports arbitrary: self)
  case Nil
  show ?case by simp
next
  case (Cons r rs)
  show ?case
    unfolding add_comments_Cons Cons.IH step_filter absorb_append
    by simp
qed

lemma calls_filter:
  "filter (located p l) (comments (add_comments_calls self calls)) =
   absorb (filter (located p l) (comments self)) p l (spec_delivered calls p l)"
proof (induction calls arbitrary: self)
  case Nil
  show ?case by (simp add: add_comments_calls_def spec_delivered_def)
next
  case (Cons cll calls)
  obtain reports fp where cll: "cll = (reports, fp)" by (cases cll)
  have "add_comments_calls self (cll # calls) =
        add_comments_calls (add_comments self reports fp) calls"
    by (simp add: add_comments_calls_def cll)
  then show ?case
    using Cons.IH[of "add_comments self reports fp"]
    by (simp add: add_comments_filter absorb_append spec_delivered_def cll)
qed

lemma spec_join_blank_Cons:
  "spec_join_blank ((b @ blank_line @ m) # ms) = b @ blank_line @ spec_join_blank (m # ms)"
  by (cases ms) simp_all

lemma absorb_body:
  "absorb (c # cs) p l ms = c\<lparr>body := spec_join_blank (body c # ms)\<rparr> # cs"
  by (induction ms arbitrary: c) (simp_all add: spec_join_blank_Cons)

lemma absorb_fresh:
  "absorb [] p l ms =
   (if ms = [] then [] else [new_ReviewComment (spec_join_blank ms) p l])"
  by (cases ms) (simp_all add: absorb_body new_ReviewComment_def)

text \<open>
  C1: after any sequence of \<open>add_comments\<close> calls on a new record, the comments at a path
  and line are at most one; there is one exactly when a message was delivered there, and
  its body is the messages delivered there, in call order, joined by blank lines.
\<close>

theorem add_comments_one_comment_per_location:
  "filter (\<lambda>c. path c = p \<and> ReviewComment.line c = l)
     (comments (add_comments_calls new_PullRequestReviewRecord calls)) =
   (if spec_delivered calls p l = [] then []
    else [\<lparr>body = spec_join_blank (spec_delivered calls p l), path = p, line = l,
            side = u ''RIGHT''\<rparr>]) \<and>
   length (filter (\<lambda>c. path c = p \<and> ReviewComment.line c = l)
     (comments (add_comments_calls new_PullRequestReviewRecord calls))) \<le> 1"
  using calls_filter[of p l new_PullRequestReviewRecord calls]
  by (simp add: absorb_fresh new_PullRequestReviewRecord_def located_def[abs_def]
      new_ReviewComment_def)

theorem add_comments_one_comment_per_location_witness:
  "filter (\<lambda>c. path c = u ''f.py'' \<and> ReviewComment.line c = 3)
     (comments (add_comments_calls new_PullRequestReviewRecord
       [([\<lparr>code = u ''A'', message = u ''x'', line = 3\<rparr>,
          \<lparr>code = u ''B'', message = u ''y'', line = 3\<rparr>], u ''f.py''),
        ([\<lparr>code = u ''A'', message = u ''w'', line = 3\<rparr>], u ''g.py''),
        ([\<lparr>code = u ''A'', message = u ''z'', line = 3\<rparr>], u ''f.py'')])) =
   [\<lparr>body = u ''x'' @ [10, 10] @ u ''y'' @ [10, 10] @ u ''z'', path = u ''f.py'', line = 3,
      side = u ''RIGHT''\<rparr>]"
  using add_comments_one_comment_per_location[of "u ''f.py''" 3
      "[([\<lparr>code = u ''A'', message = u ''x'', line = 3\<rparr>,
          \<lparr>code = u ''B'', message = u ''y'', line = 3\<rparr>], u ''f.py''),
        ([\<lparr>code = u ''A'', message = u ''w'', line = 3\<rparr>], u ''g.py''),
        ([\<lparr>code = u ''A'', message = u ''z'', line = 3\<rparr>], u ''f.py'')]"]
  by (simp add: spec_delivered_def blank_line_def u_def)

text \<open>
  C3: after any sequence of \<open>add_comments\<close> calls on a new record, the violated rules are
  the codes of all the reports passed, merged into an existing comment or not.
\<close>

theorem add_comments_violated_rules_union:
  "violated_rules (add_comments_calls new_PullRequestReviewRecord calls) =
   set (concat (map (\<lambda>(reports, filepath). map code reports) calls))"
  by (simp add: calls_violated new_PullRequestReviewRecord_def)

theorem add_comments_violated_rules_union_witness:
  "violated_rules (add_comments_calls new_PullRequestReviewRecord
     [([\<lparr>code = u ''A'', message = u ''x'', line = 3\<rparr>,
        \<lparr>code = u ''B'', message = u ''y'', line = 3\<rparr>], u ''f.py''),
      ([\<lparr>code = u ''A'', message = u ''z'', line = 4\<rparr>], u ''g.py'')]) =
   {u ''A'', u ''B''}"
  using add_comments_violated_rules_union[of
      "[([\<lparr>code = u ''A'', message = u ''x'', line = 3\<rparr>,
          \<lparr>code = u ''B'', message = u ''y'', line = 3\<rparr>], u ''f.py''),
        ([\<lparr>code = u ''A'', message = u ''z'', line = 4\<rparr>], u ''g.py'')]"]
  by auto

section \<open>\<open>add_error\<close>\<close>

lemma add_error_comments:
  "comments (add_error self msg fp lineno) =
   comments self @
   [new_ReviewComment
      (u ''An error occured while parsing the file: `'' @ fp @ u ''`'' @ [10]
       @ u ''```python'' @ [10] @ msg @ [10] @ u ''```'')
      fp (case lineno of None \<Rightarrow> 1 | Some n \<Rightarrow> n)]"
  by (simp add: add_error_def)

text \<open>
  C2 has \<open>add_error\<close> merge the error text into the comment that is already at the path and
  line. The code appends: after one report on line 1 of \<open>f.py\<close>, an error on the same line
  leaves the first comment as it was and adds a second comment at that location.
\<close>

theorem add_error_appends_at_taken_location:
  "comments (add_error
      (add_comments new_PullRequestReviewRecord
         [\<lparr>code = u ''A'', message = u ''x'', line = 1\<rparr>] (u ''f.py''))
      (u ''boom'') (u ''f.py'') (Some 1)) =
   [\<lparr>body = u ''x'', path = u ''f.py'', line = 1, side = u ''RIGHT''\<rparr>,
    \<lparr>body = u ''An error occured while parsing the file: `f.py`'' @ [10]
            @ u ''```python'' @ [10] @ u ''boom'' @ [10] @ u ''```'',
      path = u ''f.py'', line = 1, side = u ''RIGHT''\<rparr>]"
  by (simp add: add_error_def add_comments.simps lineno_exist_def new_ReviewComment_def
      new_PullRequestReviewRecord_def u_def)

section \<open>\<open>fill_labels\<close>\<close>

lemma loop_violated [simp]:
  "violated_rules (fill_labels_loop items self cl) = violated_rules self"
  by (induction items self cl rule: fill_labels_loop.induct) simp_all

lemma loop_comments [simp]:
  "comments (fill_labels_loop items self cl) = comments self"
  by (induction items self cl rule: fill_labels_loop.induct) simp_all

lemma loop_add_mono:
  "set (labels_to_add self) \<subseteq> set (labels_to_add (fill_labels_loop items self cl))"
  by (induction items self cl rule: fill_labels_loop.induct) auto

lemma loop_remove_mono:
  "set (labels_to_remove self) \<subseteq> set (labels_to_remove (fill_labels_loop items self cl))"
  by (induction items self cl rule: fill_labels_loop.induct) auto

text \<open>A record on which every item of the table is already decided is left as it is.\<close>

lemma loop_settled_fixed:
  "\<forall>(rule, label) \<in> set items.
      (rule \<in> violated_rules self \<longrightarrow> label \<in> set cl \<or> label \<in> set (labels_to_add self)) \<and>
      (rule \<notin> violated_rules self \<longrightarrow> label \<in> set cl \<longrightarrow> label \<in> set (labels_to_remove self))
   \<Longrightarrow> fill_labels_loop items self cl = self"
  by (induction items self cl rule: fill_labels_loop.induct) auto

lemma loop_settles:
  "\<forall>(rule, label) \<in> set items.
      (rule \<in> violated_rules self \<longrightarrow>
         label \<in> set cl \<or> label \<in> set (labels_to_add (fill_labels_loop items self cl))) \<and>
      (rule \<notin> violated_rules self \<longrightarrow> label \<in> set cl \<longrightarrow>
         label \<in> set (labels_to_remove (fill_labels_loop items self cl)))"
proof (induction items self cl rule: fill_labels_loop.induct)
  case (1 self cl)
  show ?case by simp
next
  case (2 rule label items self cl)
  define s1 where "s1 = (if rule \<in> violated_rules self
      then (if label \<notin> set cl \<and> label \<notin> set (labels_to_add self)
            then self\<lparr>labels_to_add := labels_to_add self @ [label]\<rparr> else self)
      else if label \<in> set cl \<and> label \<notin> set (labels_to_remove self)
      then self\<lparr>labels_to_remove := labels_to_remove self @ [label]\<rparr> else self)"
  have unfold: "fill_labels_loop ((rule, label) # items) self cl = fill_labels_loop items s1 cl"
    by (simp add: s1_def)
  have rest: "\<forall>(rule, label) \<in> set items.
      (rule \<in> violated_rules self \<longrightarrow>
         label \<in> set cl \<or> label \<in> set (labels_to_add (fill_labels_loop items s1 cl))) \<and>
      (rule \<notin> violated_rules self \<longrightarrow> label \<in> set cl \<longrightarrow>
         label \<in> set (labels_to_remove (fill_labels_loop items s1 cl)))"
    using 2 unfolding s1_def by (auto split: if_splits)
  have "rule \<in> violated_rules self \<longrightarrow> label \<notin> set cl \<longrightarrow>
      label \<in> set (labels_to_add s1)" by (simp add: s1_def)
  then have head_add: "rule \<in> violated_rules self \<longrightarrow> label \<notin> set cl \<longrightarrow>
      label \<in> set (labels_to_add (fill_labels_loop items s1 cl))"
    using loop_add_mono[of s1 items cl] by blast
  have "rule \<notin> violated_rules self \<longrightarrow> label \<in> set cl \<longrightarrow>
      label \<in> set (labels_to_remove s1)" by (simp add: s1_def)
  then have head_rem: "rule \<notin> violated_rules self \<longrightarrow> label \<in> set cl \<longrightarrow>
      label \<in> set (labels_to_remove (fill_labels_loop items s1 cl))"
    using loop_remove_mono[of s1 items cl] by blast
  show ?case
    unfolding unfold using rest head_add head_rem by auto
qed

lemma loop_idempotent:
  "fill_labels_loop items (fill_labels_loop items self cl) cl = fill_labels_loop items self cl"
  using loop_settles[of items self cl]
  by (intro loop_settled_fixed) simp

text \<open>
  C4: \<open>fill_labels\<close> is idempotent. A second call with the same current labels returns the
  record of the first call, so \<open>labels_to_add\<close> and \<open>labels_to_remove\<close> are the same lists
  and no entry is added twice.
\<close>

theorem fill_labels_idempotent:
  "fill_labels L (fill_labels L self current_labels) current_labels =
   fill_labels L self current_labels"
  by (simp add: fill_labels_def loop_idempotent)

theorem fill_labels_idempotent_witness:
  "labels_to_add (fill_labels example_labels
     (fill_labels example_labels
        (new_PullRequestReviewRecord\<lparr>violated_rules := {u ''RequireTypeHintRule''}\<rparr>)
        [u ''tests''])
     [u ''tests'']) = [u ''hints''] \<and>
   labels_to_remove (fill_labels example_labels
     (fill_labels example_labels
        (new_PullRequestReviewRecord\<lparr>violated_rules := {u ''RequireTypeHintRule''}\<rparr>)
        [u ''tests''])
     [u ''tests'']) = [u ''tests'']"
  using fill_labels_idempotent[of example_labels
      "new_PullRequestReviewRecord\<lparr>violated_rules := {u ''RequireTypeHintRule''}\<rparr>"
      "[u ''tests'']"]
  by (simp add: fill_labels_def RULE_TO_LABEL_def example_labels_def
      new_PullRequestReviewRecord_def u_def)

subsection \<open>Where the queued labels come from\<close>

lemma loop_distinct_add:
  "distinct (labels_to_add self) \<Longrightarrow> distinct (labels_to_add (fill_labels_loop items self cl))"
  by (induction items self cl rule: fill_labels_loop.induct) auto

lemma loop_distinct_remove:
  "distinct (labels_to_remove self) \<Longrightarrow>
   distinct (labels_to_remove (fill_labels_loop items self cl))"
  by (induction items self cl rule: fill_labels_loop.induct) auto

lemma loop_add_origin:
  "set (labels_to_add (fill_labels_loop items self cl)) \<subseteq>
   set (labels_to_add self) \<union> {label. \<exists>rule \<in> violated_rules self. (rule, label) \<in> set items}"
proof (induction items self cl rule: fill_labels_loop.induct)
  case (1 self cl)
  show ?case by simp
next
  case (2 rule label items self cl)
  show ?case
    using 2 by (simp split: if_splits) blast+
qed

lemma loop_remove_origin:
  "set (labels_to_remove (fill_labels_loop items self cl)) \<subseteq>
   set (labels_to_remove self) \<union>
   {label. \<exists>rule. rule \<notin> violated_rules self \<and> (rule, label) \<in> set items}"
proof (induction items self cl rule: fill_labels_loop.induct)
  case (1 self cl)
  show ?case by simp
next
  case (2 rule label items self cl)
  show ?case
    using 2 by (simp split: if_splits) blast+
qed

lemma fill_labels_violated [simp]:
  "violated_rules (fill_labels L self cl) = violated_rules self"
  by (simp add: fill_labels_def)

lemma fill_labels_comments [simp]:
  "comments (fill_labels L self cl) = comments self"
  by (simp add: fill_labels_def)

lemma fill_labels_add_within:
  assumes "set (labels_to_add self) \<subseteq>
           {label. \<exists>rule \<in> violated_rules self. (rule, label) \<in> set (RULE_TO_LABEL L)}"
  shows "set (labels_to_add (fill_labels L self cl)) \<subseteq>
           {label. \<exists>rule \<in> violated_rules self. (rule, label) \<in> set (RULE_TO_LABEL L)}"
proof -
  define X where
    "X = {label. \<exists>rule \<in> violated_rules self. (rule, label) \<in> set (RULE_TO_LABEL L)}"
  have "set (labels_to_add (fill_labels L self cl)) \<subseteq> set (labels_to_add self) \<union> X"
    unfolding fill_labels_def X_def by (rule loop_add_origin)
  moreover have "set (labels_to_add self) \<subseteq> X"
    using assms unfolding X_def .
  ultimately show ?thesis
    unfolding X_def[symmetric] by blast
qed

lemma fill_labels_remove_within:
  assumes "set (labels_to_remove self) \<subseteq>
           {label. \<exists>rule. rule \<notin> violated_rules self \<and> (rule, label) \<in> set (RULE_TO_LABEL L)}"
  shows "set (labels_to_remove (fill_labels L self cl)) \<subseteq>
           {label. \<exists>rule. rule \<notin> violated_rules self \<and> (rule, label) \<in> set (RULE_TO_LABEL L)}"
proof -
  define X where
    "X = {label. \<exists>rule. rule \<notin> violated_rules self \<and> (rule, label) \<in> set (RULE_TO_LABEL L)}"
  have "set (labels_to_remove (fill_labels L self cl)) \<subseteq> set (labels_to_remove self) \<union> X"
    unfolding fill_labels_def X_def by (rule loop_remove_origin)
  moreover have "set (labels_to_remove self) \<subseteq> X"
    using assms unfolding X_def .
  ultimately show ?thesis
    unfolding X_def[symmetric] by blast
qed

lemma calls_invariant:
  assumes "distinct (labels_to_add self)" "distinct (labels_to_remove self)"
    and "set (labels_to_add self) \<subseteq>
           {label. \<exists>rule \<in> violated_rules self. (rule, label) \<in> set (RULE_TO_LABEL L)}"
    and "set (labels_to_remove self) \<subseteq>
           {label. \<exists>rule. rule \<notin> violated_rules self \<and> (rule, label) \<in> set (RULE_TO_LABEL L)}"
  shows "distinct (labels_to_add (fill_labels_calls L self calls)) \<and>
         distinct (labels_to_remove (fill_labels_calls L self calls)) \<and>
         set (labels_to_add (fill_labels_calls L self calls)) \<subseteq>
           {label. \<exists>rule \<in> violated_rules self. (rule, label) \<in> set (RULE_TO_LABEL L)} \<and>
         set (labels_to_remove (fill_labels_calls L self calls)) \<subseteq>
           {label. \<exists>rule. rule \<notin> violated_rules self \<and> (rule, label) \<in> set (RULE_TO_LABEL L)}"
  using assms
proof (induction calls arbitrary: self)
  case Nil
  then show ?case unfolding fill_labels_calls_def foldl.simps by blast
next
  case (Cons cl calls)
  have step: "fill_labels_calls L self (cl # calls) =
              fill_labels_calls L (fill_labels L self cl) calls"
    unfolding fill_labels_calls_def by simp
  have d1: "distinct (labels_to_add (fill_labels L self cl))"
    unfolding fill_labels_def using Cons.prems(1) by (rule loop_distinct_add)
  have d2: "distinct (labels_to_remove (fill_labels L self cl))"
    unfolding fill_labels_def using Cons.prems(2) by (rule loop_distinct_remove)
  have a: "set (labels_to_add (fill_labels L self cl)) \<subseteq>
           {label. \<exists>rule \<in> violated_rules (fill_labels L self cl).
                     (rule, label) \<in> set (RULE_TO_LABEL L)}"
    unfolding fill_labels_violated using Cons.prems(3) by (rule fill_labels_add_within)
  have r: "set (labels_to_remove (fill_labels L self cl)) \<subseteq>
           {label. \<exists>rule. rule \<notin> violated_rules (fill_labels L self cl) \<and>
                     (rule, label) \<in> set (RULE_TO_LABEL L)}"
    unfolding fill_labels_violated using Cons.prems(4) by (rule fill_labels_remove_within)
  show ?case
    unfolding step using Cons.IH[OF d1 d2 a r] unfolding fill_labels_violated .
qed

lemma label_rule_unique:
  "distinct (map snd items) \<Longrightarrow> (r, l) \<in> set items \<Longrightarrow> (r', l) \<in> set items \<Longrightarrow> r = r'"
  by (induction items) (auto simp: rev_image_eqI)

text \<open>
  C5: after any sequence of \<open>fill_labels\<close> calls on a record whose label lists started
  empty, \<open>labels_to_add\<close> and \<open>labels_to_remove\<close> have no label in common and neither holds
  a label twice. The three label names of the absent \<open>Label\<close> class are taken to be
  distinct.
\<close>

theorem fill_labels_disjoint_distinct:
  assumes "distinct [DESCRIPTIVE_NAME L, REQUIRE_TEST L, TYPE_HINT L]"
    and "labels_to_add self = []" and "labels_to_remove self = []"
  shows "set (labels_to_add (fill_labels_calls L self calls)) \<inter>
         set (labels_to_remove (fill_labels_calls L self calls)) = {} \<and>
         distinct (labels_to_add (fill_labels_calls L self calls)) \<and>
         distinct (labels_to_remove (fill_labels_calls L self calls))"
proof -
  have inv: "distinct (labels_to_add (fill_labels_calls L self calls)) \<and>
         distinct (labels_to_remove (fill_labels_calls L self calls)) \<and>
         set (labels_to_add (fill_labels_calls L self calls)) \<subseteq>
           {label. \<exists>rule \<in> violated_rules self. (rule, label) \<in> set (RULE_TO_LABEL L)} \<and>
         set (labels_to_remove (fill_labels_calls L self calls)) \<subseteq>
           {label. \<exists>rule. rule \<notin> violated_rules self \<and> (rule, label) \<in> set (RULE_TO_LABEL L)}"
    using calls_invariant[of self L calls] assms(2,3) by simp
  have dl: "distinct (map snd (RULE_TO_LABEL L))"
    using assms(1) by (simp add: RULE_TO_LABEL_def)
  have "{label. \<exists>rule \<in> violated_rules self. (rule, label) \<in> set (RULE_TO_LABEL L)} \<inter>
        {label. \<exists>rule. rule \<notin> violated_rules self \<and> (rule, label) \<in> set (RULE_TO_LABEL L)} = {}"
    using label_rule_unique[OF dl] by blast
  with inv show ?thesis by blast
qed

theorem fill_labels_disjoint_distinct_witness:
  "distinct [DESCRIPTIVE_NAME example_labels, REQUIRE_TEST example_labels,
             TYPE_HINT example_labels] \<and>
   labels_to_add (fill_labels_calls example_labels
      (new_PullRequestReviewRecord\<lparr>violated_rules := {u ''RequireTypeHintRule''}\<rparr>)
      [[u ''tests''], [u ''hints'', u ''names'']]) = [u ''hints''] \<and>
   labels_to_remove (fill_labels_calls example_labels
      (new_PullRequestReviewRecord\<lparr>violated_rules := {u ''RequireTypeHintRule''}\<rparr>)
      [[u ''tests''], [u ''hints'', u ''names'']]) = [u ''tests'', u ''names''] \<and>
   set [u ''hints''] \<inter> set [u ''tests'', u ''names''] = {}"
proof -
  have d: "distinct [DESCRIPTIVE_NAME example_labels, REQUIRE_TEST example_labels,
                     TYPE_HINT example_labels]"
    by (simp add: example_labels_def u_def)
  have a: "labels_to_add
             (new_PullRequestReviewRecord\<lparr>violated_rules := {u ''RequireTypeHintRule''}\<rparr>) = []"
    by (simp add: new_PullRequestReviewRecord_def)
  have r: "labels_to_remove
             (new_PullRequestReviewRecord\<lparr>violated_rules := {u ''RequireTypeHintRule''}\<rparr>) = []"
    by (simp add: new_PullRequestReviewRecord_def)
  show ?thesis
    using d fill_labels_disjoint_distinct[OF d a r, of "[[u ''tests''], [u ''hints'', u ''names'']]"]
    by (simp add: fill_labels_calls_def fill_labels_def RULE_TO_LABEL_def example_labels_def
        new_PullRequestReviewRecord_def u_def)
qed

subsection \<open>A rule that is not in the table\<close>

lemma loop_unknown_rule:
  "r \<notin> fst ` set items \<Longrightarrow>
   labels_to_add s' = labels_to_add s \<Longrightarrow> labels_to_remove s' = labels_to_remove s \<Longrightarrow>
   violated_rules s' = insert r (violated_rules s) \<Longrightarrow>
   labels_to_add (fill_labels_loop items s' cl) = labels_to_add (fill_labels_loop items s cl) \<and>
   labels_to_remove (fill_labels_loop items s' cl) = labels_to_remove (fill_labels_loop items s cl)"
proof (induction items arbitrary: s s')
  case Nil
  then show ?case by simp
next
  case (Cons item items)
  obtain rule label where item: "item = (rule, label)" by (cases item)
  have ne: "rule \<noteq> r" and r: "r \<notin> fst ` set items"
    using Cons.prems(1) by (auto simp: item)
  have mem: "rule \<in> violated_rules s' \<longleftrightarrow> rule \<in> violated_rules s"
    using ne Cons.prems(4) by simp
  show ?case
    unfolding item fill_labels_loop.simps mem Cons.prems(2,3)
    using Cons.IH[OF r] Cons.prems(2,3,4) by simp
qed

text \<open>
  C6: a violated rule that is not a key of the rule table changes nothing: \<open>fill_labels\<close>
  fills \<open>labels_to_add\<close> and \<open>labels_to_remove\<close> as it does on the record without that rule.
  \<open>fill_labels\<close> has no failing branch, so there is no error either.
\<close>

theorem fill_labels_unknown_rule_ignored:
  assumes "r \<notin> fst ` set (RULE_TO_LABEL L)"
  shows "labels_to_add (fill_labels L self cl) =
         labels_to_add (fill_labels L (self\<lparr>violated_rules := violated_rules self - {r}\<rparr>) cl) \<and>
         labels_to_remove (fill_labels L self cl) =
         labels_to_remove (fill_labels L (self\<lparr>violated_rules := violated_rules self - {r}\<rparr>) cl)"
proof (cases "r \<in> violated_rules self")
  case True
  then have "violated_rules self =
             insert r (violated_rules (self\<lparr>violated_rules := violated_rules self - {r}\<rparr>))"
    by auto
  then show ?thesis
    unfolding fill_labels_def
    using loop_unknown_rule[OF assms, of self
        "self\<lparr>violated_rules := violated_rules self - {r}\<rparr>" cl]
    by simp
next
  case False
  then have "self\<lparr>violated_rules := violated_rules self - {r}\<rparr> = self" by simp
  then show ?thesis by simp
qed

theorem fill_labels_unknown_rule_ignored_witness:
  "u ''UnknownRule'' \<notin> fst ` set (RULE_TO_LABEL example_labels) \<and>
   labels_to_add (fill_labels example_labels
      (new_PullRequestReviewRecord
         \<lparr>violated_rules := {u ''UnknownRule'', u ''RequireDoctestRule''}\<rparr>)
      [u ''hints'']) = [u ''tests''] \<and>
   labels_to_add (fill_labels example_labels
      (new_PullRequestReviewRecord\<lparr>violated_rules := {u ''RequireDoctestRule''}\<rparr>)
      [u ''hints'']) = [u ''tests'']"
proof -
  have k: "u ''UnknownRule'' \<notin> fst ` set (RULE_TO_LABEL example_labels)"
    by (simp add: RULE_TO_LABEL_def u_def)
  show ?thesis
    using k fill_labels_unknown_rule_ignored[OF k, of
        "new_PullRequestReviewRecord
           \<lparr>violated_rules := {u ''UnknownRule'', u ''RequireDoctestRule''}\<rparr>"
        "[u ''hints'']"]
    by (simp add: fill_labels_def RULE_TO_LABEL_def example_labels_def
        new_PullRequestReviewRecord_def u_def)
qed

section \<open>\<open>collect_comments\<close>\<close>

lemma step_locations:
  "map location (comments (add_comments_step self r fp)) =
   spec_see (map location (comments self)) (fp, BaseLintRuleReport.line r)"
proof -
  have "(fp, BaseLintRuleReport.line r) \<in> set (map location (comments self)) \<longleftrightarrow>
        fst (lineno_exist_loop (comments self) (BaseLintRuleReport.line r) fp (message r))"
    by (auto simp: loop_found_iff located_def location_def)
  then show ?thesis
    using loop_locations[of "comments self" "BaseLintRuleReport.line r" fp "message r"]
    by (simp add: step_comments spec_see_def location_def new_ReviewComment_def)
qed

lemma add_comments_locations:
  "map location (comments (add_comments self reports fp)) =
   foldl spec_see (map location (comments self))
     (map (\<lambda>r. (fp, BaseLintRuleReport.line r)) reports)"
proof (induction reports arbitrary: self)
  case Nil
  show ?case by simp
next
  case (Cons r rs)
  show ?case
    unfolding add_comments_Cons Cons.IH step_locations by simp
qed

lemma step_sides:
  assumes "\<forall>c \<in> set (comments self). side c = u ''RIGHT''"
  shows "\<forall>c \<in> set (comments (add_comments_step self r fp)). side c = u ''RIGHT''"
proof -
  have "set (map side (snd (lineno_exist_loop (comments self) (BaseLintRuleReport.line r) fp
                              (message r)))) = set (map side (comments self))"
    by (simp only: loop_sides)
  then have "\<forall>c \<in> set (snd (lineno_exist_loop (comments self) (BaseLintRuleReport.line r) fp
                               (message r))). side c = u ''RIGHT''"
    using assms by auto
  with assms show ?thesis
    by (simp add: step_comments new_ReviewComment_def)
qed

lemma add_comments_sides:
  "\<forall>c \<in> set (comments self). side c = u ''RIGHT'' \<Longrightarrow>
   \<forall>c \<in> set (comments (add_comments self reports fp)). side c = u ''RIGHT''"
proof (induction reports arbitrary: self)
  case Nil
  then show ?case by simp
next
  case (Cons r rs)
  show ?case
    unfolding add_comments_Cons
    by (rule Cons.IH) (rule step_sides[OF Cons.prems])
qed

lemma apply_call_sides:
  "\<forall>c \<in> set (comments self). side c = u ''RIGHT'' \<Longrightarrow>
   \<forall>c \<in> set (comments (apply_call L self cll)). side c = u ''RIGHT''"
  by (cases cll) (simp_all add: add_comments_sides add_error_def new_ReviewComment_def)

lemma apply_call_locations:
  "\<not> is_AddError cll \<Longrightarrow>
   map location (comments (apply_call L self cll)) =
   spec_locations_call (map location (comments self)) cll"
  by (cases cll) (simp_all add: add_comments_locations)

lemma apply_calls_sides:
  "\<forall>c \<in> set (comments self). side c = u ''RIGHT'' \<Longrightarrow>
   \<forall>c \<in> set (comments (apply_calls L self calls)). side c = u ''RIGHT''"
  unfolding apply_calls_def
proof (induction calls arbitrary: self)
  case Nil
  then show ?case by simp
next
  case (Cons cll calls)
  show ?case
    unfolding foldl.simps
    by (rule Cons.IH) (rule apply_call_sides[OF Cons.prems])
qed

lemma apply_calls_locations:
  "list_all (\<lambda>cll. \<not> is_AddError cll) calls \<Longrightarrow>
   map location (comments (apply_calls L self calls)) =
   foldl spec_locations_call (map location (comments self)) calls"
  unfolding apply_calls_def
  by (induction calls arbitrary: self) (simp_all add: apply_call_locations)

text \<open>
  Whatever the calls, \<open>collect_comments\<close> returns one dict per comment, in the order of the
  comments, with the four keys \<open>body\<close>, \<open>path\<close>, \<open>line\<close>, \<open>side\<close> and \<open>"RIGHT"\<close> as the side
  of every entry, those of \<open>add_error\<close> included.
\<close>

lemma collect_comments_shape:
  "collect_comments (apply_calls L new_PullRequestReviewRecord calls) =
     map (\<lambda>c. [(u ''body'', PyStr (body c)), (u ''path'', PyStr (path c)),
               (u ''line'', PyInt (ReviewComment.line c)), (u ''side'', PyStr (u ''RIGHT''))])
       (comments (apply_calls L new_PullRequestReviewRecord calls))"
proof -
  have "\<forall>c \<in> set (comments (apply_calls L new_PullRequestReviewRecord calls)).
          side c = u ''RIGHT''"
    by (rule apply_calls_sides) (simp add: new_PullRequestReviewRecord_def)
  then show ?thesis
    by (simp add: collect_comments_def asdict_def)
qed

text \<open>Without \<open>add_error\<close> calls the comments stand in the order of first-seen locations.\<close>

lemma comments_first_seen_without_errors:
  assumes "list_all (\<lambda>cll. \<not> is_AddError cll) calls"
  shows "map (\<lambda>c. (path c, ReviewComment.line c))
           (comments (apply_calls L new_PullRequestReviewRecord calls)) = spec_locations calls"
  using apply_calls_locations[OF assms, of L new_PullRequestReviewRecord]
  by (simp add: spec_locations_def new_PullRequestReviewRecord_def location_def[abs_def])

text \<open>
  C7 has \<open>collect_comments\<close> return one dict per comment, with the four keys and the side
  \<open>"RIGHT"\<close>, in the order in which the locations were first seen, the entries of
  \<open>add_error\<close> included. After reports on line 1 of \<open>f.py\<close> and line 2 of \<open>g.py\<close>, an error
  on line 1 of \<open>f.py\<close> gives a third entry, at a location that is already the first of the
  order: the output names \<open>f.py\<close> line 1 twice, and the first-seen order has two locations.
\<close>

theorem collect_comments_error_repeats_location:
  "collect_comments (apply_calls example_labels new_PullRequestReviewRecord
     [AddComments [\<lparr>code = u ''A'', message = u ''x'', line = 1\<rparr>] (u ''f.py''),
      AddComments [\<lparr>code = u ''B'', message = u ''y'', line = 2\<rparr>] (u ''g.py''),
      AddError (u ''boom'') (u ''f.py'') (Some 1)]) =
   [[(u ''body'', PyStr (u ''x'')), (u ''path'', PyStr (u ''f.py'')),
     (u ''line'', PyInt 1), (u ''side'', PyStr (u ''RIGHT''))],
    [(u ''body'', PyStr (u ''y'')), (u ''path'', PyStr (u ''g.py'')),
     (u ''line'', PyInt 2), (u ''side'', PyStr (u ''RIGHT''))],
    [(u ''body'', PyStr (u ''An error occured while parsing the file: `f.py`'' @ [10]
            @ u ''```python'' @ [10] @ u ''boom'' @ [10] @ u ''```'')),
     (u ''path'', PyStr (u ''f.py'')),
     (u ''line'', PyInt 1), (u ''side'', PyStr (u ''RIGHT''))]] \<and>
   spec_locations
     [AddComments [\<lparr>code = u ''A'', message = u ''x'', line = 1\<rparr>] (u ''f.py''),
      AddComments [\<lparr>code = u ''B'', message = u ''y'', line = 2\<rparr>] (u ''g.py''),
      AddError (u ''boom'') (u ''f.py'') (Some 1)] = [(u ''f.py'', 1), (u ''g.py'', 2)]"
  by (simp add: apply_calls_def add_error_def add_comments.simps lineno_exist_def
      new_ReviewComment_def new_PullRequestReviewRecord_def spec_locations_def spec_see_def
      blank_line_def collect_comments_def asdict_def Let_def u_def)

section \<open>The naming rule\<close>

lemma visit_ClassDef_empty: "visit_ClassDef db (ClassDef []) = Inl IndexError"
  by (simp add: visit_ClassDef_def)

text \<open>
  When the first character is an uppercase letter, a lowercase letter or the underscore,
  "starts with a lowercase letter" and "does not start with an uppercase letter" decide
  the report alike.
\<close>

lemma visit_ClassDef_cased_first:
  assumes "isupper db first \<or> islower db first \<or> first = of_char (CHR ''_'')"
    and "\<not> (isupper db first \<and> islower db first)"
  shows "visit_ClassDef db (ClassDef (first # rest)) =
     Inr (if \<not> spec_starts_uppercase db (first # rest) \<or> of_char (CHR ''_'') \<in> set (first # rest)
          then [INVALID_CAMEL_CASE_NAME (first # rest)] else [])"
  using assms by (auto simp: visit_ClassDef_def spec_starts_uppercase_def)

text \<open>
  C8 as stated has a report for every class name that does not start with an uppercase
  letter. The code tests \<open>islower\<close>: the class name made of the ideograph U+7C7B does not
  start with an uppercase letter, holds no underscore, and is not reported.
\<close>

theorem visit_ClassDef_uncased_first_counterexample:
  "visit_ClassDef ascii_db (ClassDef [0x7C7B]) = Inr [] \<and>
   \<not> spec_starts_uppercase ascii_db [0x7C7B]"
  by (simp add: visit_ClassDef_def spec_starts_uppercase_def ascii_db_def)

text \<open>
  C8, amended: for a class definition with a non-empty name, the rule reports exactly one
  violation, whose message holds the class name verbatim, if and only if the name starts
  with a lowercase letter or contains an underscore; otherwise it reports nothing.
\<close>

theorem visit_ClassDef_lowercase_or_underscore:
  "visit_ClassDef db (ClassDef (first # rest)) =
     Inr (if islower db first \<or> of_char (CHR ''_'') \<in> set (first # rest)
          then [INVALID_CAMEL_CASE_NAME (first # rest)] else []) \<and>
   sublist (first # rest) (INVALID_CAMEL_CASE_NAME (first # rest))"
proof -
  have "sublist (first # rest) (INVALID_CAMEL_CASE_NAME (first # rest))"
    unfolding INVALID_CAMEL_CASE_NAME_def sublist_def by (metis append.assoc)
  then show ?thesis by (simp add: visit_ClassDef_def)
qed

theorem visit_ClassDef_lowercase_or_underscore_witness:
  "visit_ClassDef ascii_db (ClassDef (u ''fooBar'')) =
     Inr [INVALID_CAMEL_CASE_NAME (u ''fooBar'')] \<and>
   visit_ClassDef ascii_db (ClassDef (u ''Foo_bar'')) =
     Inr [INVALID_CAMEL_CASE_NAME (u ''Foo_bar'')] \<and>
   visit_ClassDef ascii_db (ClassDef (u ''FooBar'')) = Inr []"
  using visit_ClassDef_lowercase_or_underscore[of ascii_db "of_char (CHR ''f'')" "u ''ooBar''"]
        visit_ClassDef_lowercase_or_underscore[of ascii_db "of_char (CHR ''F'')" "u ''oo_bar''"]
        visit_ClassDef_lowercase_or_underscore[of ascii_db "of_char (CHR ''F'')" "u ''ooBar''"]
  by (simp add: ascii_db_def u_def)

subsection \<open>Names of functions, parameters and targets\<close>

text \<open>A name with an uppercase letter is reported where the node holds it directly.\<close>

lemma snake_case_simple_names:
  assumes "any_uppercase_letter db n"
  shows "visit_FunctionDef db (FunctionDef n) = [INVALID_SNAKE_CASE_NAME (u ''function'') n]"
    and "visit_Param db (Param n) = [INVALID_SNAKE_CASE_NAME (u ''parameter'') n]"
    and "visit_For db (For (Name n)) = [INVALID_SNAKE_CASE_NAME (u ''variable'') n]"
    and "visit_AssignTarget db (AssignTarget (Name n)) =
           [INVALID_SNAKE_CASE_NAME (u ''variable'') n]"
    and "visit_NamedExpr db (NamedExpr (Name n) v) =
           [INVALID_SNAKE_CASE_NAME (u ''variable'') n]"
    and "visit_AnnAssign db (AnnAssign (Name n) (Some v)) =
           Inr [INVALID_SNAKE_CASE_NAME (u ''variable'') n]"
  using assms
  by (simp_all add: visit_FunctionDef_def visit_Param_def visit_For_def visit_AssignTarget_def
      visit_NamedExpr_def visit_AnnAssign_def validate_snake_case_name_def)

text \<open>A target that is a tuple or a list matches neither pattern, whatever it holds.\<close>

lemma sequence_targets_unchecked:
  "visit_AssignTarget db (AssignTarget (Tuple es)) = []"
  "visit_AssignTarget db (AssignTarget (List es)) = []"
  "visit_For db (For (Tuple es)) = []"
  "visit_For db (For (List es)) = []"
  by (simp_all add: visit_AssignTarget_def visit_For_def validate_snake_case_name_def)

text \<open>
  C9 has a report for every name with an uppercase letter that a destructuring assignment
  binds. For the target of \<^verbatim>\<open>Foo, bar = 1, 2\<close> the code reports nothing, although \<open>Foo\<close>
  holds an uppercase letter.
\<close>

theorem visit_AssignTarget_tuple_unreported:
  "any_uppercase_letter ascii_db (u ''Foo'') \<and>
   visit_AssignTarget ascii_db (AssignTarget (Tuple [Name (u ''Foo''), Name (u ''bar'')])) = []"
  by (simp add: visit_AssignTarget_def validate_snake_case_name_def ascii_db_def u_def)

text \<open>
  C10: an annotated assignment without a value, such as \<^verbatim>\<open>Var: int\<close>, is never reported,
  whatever its target is.
\<close>

theorem visit_AnnAssign_bare_annotation:
  "visit_AnnAssign db (AnnAssign target None) = Inr []"
  by (simp add: visit_AnnAssign_def)

theorem visit_AnnAssign_bare_annotation_witness:
  "any_uppercase_letter ascii_db (u ''Var_x'') \<and>
   visit_AnnAssign ascii_db (AnnAssign (Name (u ''Var_x'')) None) = Inr []"
  using visit_AnnAssign_bare_annotation[of ascii_db "Name (u ''Var_x'')"]
  by (simp add: ascii_db_def u_def)

end
